theory Spec2Isabelle
  imports Main "HOL-Library.Word"
begin

section \<open>JavaScript values\<close>

text \<open>
  A JavaScript string is a sequence of UTF-16 code units. The values a row or one of its
  fields can hold are the data values of the language: \<open>undefined\<close>, \<open>null\<close>, booleans,
  numbers, strings and plain objects (a list of own properties, the first binding of a key
  winning). Function values, getters and proxies are outside the model, so no value of the
  model other than a string has a callable \<open>trim\<close>.
\<close>

type_synonym jsstring = "16 word list"

datatype jsval =
    JUndefined
  | JNull
  | JBool bool
  | JNum int
  | JStr jsstring
  | JObj "(jsstring \<times> jsval) list"

datatype error = TypeError

definition str :: "string \<Rightarrow> jsstring" where
  "str s = map of_char s"

definition k_name :: jsstring where
  "k_name = str ''name''"

definition k_age :: jsstring where
  "k_age = str ''age''"

definition k_email :: jsstring where
  "k_email = str ''email''"

subsection \<open>\<open>String.prototype.trim\<close>\<close>

text \<open>
  \<open>trim\<close> removes the leading and the trailing run of white space and line terminators:
  TAB, LF, VT, FF, CR, SPACE, NBSP, the Unicode space separators (U+1680, U+2000 to U+200A,
  U+202F, U+205F, U+3000), the line and paragraph separators U+2028 and U+2029, and the
  byte order mark U+FEFF. All of them are single code units.
\<close>

definition is_space :: "16 word \<Rightarrow> bool" where
  "is_space c = (c \<in> {0x0009, 0x000A, 0x000B, 0x000C, 0x000D, 0x0020, 0x00A0, 0x1680,
     0x2000, 0x2001, 0x2002, 0x2003, 0x2004, 0x2005, 0x2006, 0x2007, 0x2008, 0x2009, 0x200A,
     0x2028, 0x2029, 0x202F, 0x205F, 0x3000, 0xFEFF})"

definition trim :: "jsstring \<Rightarrow> jsstring" where
  "trim s = rev (dropWhile is_space (rev (dropWhile is_space s)))"

subsection \<open>Property access, optional call, negation\<close>

text \<open>
  \<open>row.k\<close> for a data key \<open>k\<close> (one that no prototype defines, as \<open>name\<close>, \<open>age\<close> and
  \<open>email\<close>): reading a property of \<open>undefined\<close> or \<open>null\<close> throws, a primitive has no such
  property, an object yields its binding or \<open>undefined\<close>.
\<close>

definition getProp :: "jsval \<Rightarrow> jsstring \<Rightarrow> error + jsval" where
  "getProp v k =
     (case v of
        JUndefined \<Rightarrow> Inl TypeError
      | JNull \<Rightarrow> Inl TypeError
      | JBool _ \<Rightarrow> Inr JUndefined
      | JNum _ \<Rightarrow> Inr JUndefined
      | JStr _ \<Rightarrow> Inr JUndefined
      | JObj ps \<Rightarrow> Inr (case map_of ps k of None \<Rightarrow> JUndefined | Some x \<Rightarrow> x))"

text \<open>
  \<open>v?.trim()\<close>: the optional chain yields \<open>undefined\<close> when \<open>v\<close> is \<open>undefined\<close> or \<open>null\<close>;
  a string is trimmed; on any other value \<open>v.trim\<close> is not a function and the call throws.
\<close>

definition optTrim :: "jsval \<Rightarrow> error + jsval" where
  "optTrim v =
     (case v of
        JUndefined \<Rightarrow> Inr JUndefined
      | JNull \<Rightarrow> Inr JUndefined
      | JBool _ \<Rightarrow> Inl TypeError
      | JNum _ \<Rightarrow> Inl TypeError
      | JStr s \<Rightarrow> Inr (JStr (trim s))
      | JObj _ \<Rightarrow> Inl TypeError)"

text \<open>\<open>ToBoolean\<close> and the operator \<open>!\<close>.\<close>

definition truthy :: "jsval \<Rightarrow> bool" where
  "truthy v =
     (case v of
        JUndefined \<Rightarrow> False
      | JNull \<Rightarrow> False
      | JBool b \<Rightarrow> b
      | JNum n \<Rightarrow> n \<noteq> 0
      | JStr s \<Rightarrow> s \<noteq> []
      | JObj _ \<Rightarrow> True)"

definition js_not :: "jsval \<Rightarrow> bool" where
  "js_not v = (\<not> truthy v)"

text \<open>The values an optional chain skips, and the string values.\<close>

definition nullish :: "jsval \<Rightarrow> bool" where
  "nullish v = (case v of JUndefined \<Rightarrow> True | JNull \<Rightarrow> True | _ \<Rightarrow> False)"

definition is_string :: "jsval \<Rightarrow> bool" where
  "is_string v = (case v of JStr _ \<Rightarrow> True | _ \<Rightarrow> False)"

section \<open>The row validator\<close>

text \<open>
  \<^verbatim>\<open>
  function processCsvRow(row) {
    const name = row.name?.trim();
    const age = row.age?.trim();
    const email = row.email?.trim();
    if (!name || !age || !email) {
      return null;
    }
    return { name, age, email };
  }
  \<close>
\<close>

definition fieldTrim :: "jsval \<Rightarrow> jsstring \<Rightarrow> error + jsval" where
  "fieldTrim row k = (case getProp row k of Inl e \<Rightarrow> Inl e | Inr v \<Rightarrow> optTrim v)"

definition processCsvRow :: "jsval \<Rightarrow> error + jsval" where
  "processCsvRow row =
     (case fieldTrim row k_name of
        Inl e \<Rightarrow> Inl e
      | Inr name \<Rightarrow>
          (case fieldTrim row k_age of
             Inl e \<Rightarrow> Inl e
           | Inr age \<Rightarrow>
               (case fieldTrim row k_email of
                  Inl e \<Rightarrow> Inl e
                | Inr email \<Rightarrow>
                    if js_not name \<or> js_not age \<or> js_not email then Inr JNull
                    else Inr (JObj [(k_name, name), (k_age, age), (k_email, email)]))))"

section \<open>Rows of the CSV parser\<close>

text \<open>
  A \<open>RawRow\<close> is what the CSV parser hands over: column names bound to strings. As a
  JavaScript value it is the object with these properties.
\<close>

type_synonym rawrow = "(jsstring \<times> jsstring) list"

definition toObj :: "rawrow \<Rightarrow> jsval" where
  "toObj r = JObj (map (\<lambda>(k, s). (k, JStr s)) r)"

text \<open>The field \<open>k\<close> of a row is absent or trims to the empty string.\<close>

definition blank :: "rawrow \<Rightarrow> jsstring \<Rightarrow> bool" where
  "blank r k = (case map_of r k of None \<Rightarrow> True | Some s \<Rightarrow> trim s = [])"

text \<open>A row is fully populated when none of its three fields is blank.\<close>

definition fully_populated :: "rawrow \<Rightarrow> bool" where
  "fully_populated r = (\<not> blank r k_name \<and> \<not> blank r k_age \<and> \<not> blank r k_email)"

text \<open>The trimmed value of a field, and the normalized record of a row.\<close>

definition trimmed :: "rawrow \<Rightarrow> jsstring \<Rightarrow> jsstring" where
  "trimmed r k = (case map_of r k of None \<Rightarrow> [] | Some s \<Rightarrow> trim s)"

definition normalized :: "rawrow \<Rightarrow> jsval" where
  "normalized r =
     JObj [(k_name, JStr (trimmed r k_name)), (k_age, JStr (trimmed r k_age)),
           (k_email, JStr (trimmed r k_email))]"

section \<open>The upload handler\<close>

text \<open>
  The handler's module is not among the sources at hand; the integration test drives it
  through HTTP and fixes its status codes, its messages and its calls of
  \<open>Person.bulkCreate\<close>. The model below follows the specification's description of the
  handler, step by step. Its two collaborators are parameters: the CSV parser, and the
  persistence function, which either resolves (\<open>True\<close>) or rejects (\<open>False\<close>). What the
  handler does to the outside is recorded as a list of events, in order.
\<close>

record request =
  req_file :: "jsstring option"

datatype event = ParseCsv jsstring | BulkCreate "jsval list"

datatype body = Message jsstring | Error jsstring

datatype response = Json nat body | ServerFailure

text \<open>
  The three messages, as the integration test expects them in the response body. The
  accented letters of the two error messages are the code units U+00E9 (e acute),
  U+00F3 (o acute) and U+00E1 (a acute).
\<close>

definition msg_success :: jsstring where
  "msg_success = str ''Dados inseridos com sucesso!''"

definition msg_file_required :: jsstring where
  "msg_file_required = str ''Arquivo CSV '' @ [0x00E9] @ str '' obrigat'' @ [0x00F3] @ str ''rio!''"

definition msg_no_valid :: jsstring where
  "msg_no_valid = str ''Nenhum dado v'' @ [0x00E1] @ str ''lido encontrado no arquivo CSV.''"

text \<open>
  Modelled from the spec: the handler's accumulation loop (its source is missing). The
  row validator is applied to each row in order, a rejection (\<open>null\<close>) is discarded, a
  record is appended to the results. An exception of the validator ends the loop.
\<close>

fun collect :: "rawrow list \<Rightarrow> jsval list \<Rightarrow> error + jsval list" where
  "collect [] results = Inr results"
| "collect (r # rs) results =
     (case processCsvRow (toObj r) of
        Inl e \<Rightarrow> Inl e
      | Inr v \<Rightarrow> if v = JNull then collect rs results else collect rs (results @ [v]))"

text \<open>
  Modelled from the spec: the upload handler (its source is missing). Without a file it
  fails at once with the "file required" response. Otherwise it parses the content, runs
  the accumulation loop, fails with the "no valid data" response when nothing was
  accumulated, and else calls the batch insert once with all records: 201 with the
  success message when the insert resolves, a failure of the 5xx class when it rejects.
  An exception inside the loop is a failure of the 5xx class too.
\<close>

definition uploadCsv ::
  "(jsstring \<Rightarrow> rawrow list) \<Rightarrow> (jsval list \<Rightarrow> bool) \<Rightarrow> request \<Rightarrow> response \<times> event list" where
  "uploadCsv parseCsv bulkCreate req =
     (case req_file req of
        None \<Rightarrow> (Json 400 (Error msg_file_required), [])
      | Some content \<Rightarrow>
          (case collect (parseCsv content) [] of
             Inl e \<Rightarrow> (ServerFailure, [ParseCsv content])
           | Inr results \<Rightarrow>
               if results = [] then (Json 400 (Error msg_no_valid), [ParseCsv content])
               else if bulkCreate results
                 then (Json 201 (Message msg_success), [ParseCsv content, BulkCreate results])
                 else (ServerFailure, [ParseCsv content, BulkCreate results])))"

text \<open>The arguments of the calls of the batch insert among the events, in order.\<close>

fun bulkCreateCalls :: "event list \<Rightarrow> jsval list list" where
  "bulkCreateCalls [] = []"
| "bulkCreateCalls (BulkCreate records # es) = records # bulkCreateCalls es"
| "bulkCreateCalls (ParseCsv _ # es) = bulkCreateCalls es"

text \<open>Whether the parser was run.\<close>

fun parsed :: "event list \<Rightarrow> bool" where
  "parsed [] = False"
| "parsed (ParseCsv _ # es) = True"
| "parsed (BulkCreate _ # es) = parsed es"

section \<open>The row validator with the store explicit\<close>

text \<open>
  In the running program an object is a reference into a store of mutable objects, and
  a function may read and write any of them. To state what the validator does to that
  store, the same source text is embedded once more with the store passed in and
  returned: \<open>row.name\<close> reads the object the argument refers to, the primitives and
  \<open>trim\<close> are as before, and the object literal \<open>{ name, age, email }\<close> allocates a new
  object. The store is the list of the objects allocated so far, a reference is an index
  into it.
\<close>

type_synonym addr = nat

datatype hval =
    HUndefined
  | HNull
  | HBool bool
  | HNum int
  | HStr jsstring
  | HRef addr

type_synonym obj = "(jsstring \<times> hval) list"

type_synonym store = "obj list"

text \<open>The properties of the object at an address (a reference always points into the store).\<close>

definition props :: "store \<Rightarrow> addr \<Rightarrow> obj" where
  "props h a = (if a < length h then h ! a else [])"

text \<open>\<open>row.k\<close>, \<open>v?.trim()\<close> and \<open>!v\<close> on the values of the store.\<close>

definition getProp_st :: "store \<Rightarrow> hval \<Rightarrow> jsstring \<Rightarrow> error + hval" where
  "getProp_st h v k =
     (case v of
        HUndefined \<Rightarrow> Inl TypeError
      | HNull \<Rightarrow> Inl TypeError
      | HBool _ \<Rightarrow> Inr HUndefined
      | HNum _ \<Rightarrow> Inr HUndefined
      | HStr _ \<Rightarrow> Inr HUndefined
      | HRef a \<Rightarrow> Inr (case map_of (props h a) k of None \<Rightarrow> HUndefined | Some x \<Rightarrow> x))"

definition optTrim_st :: "hval \<Rightarrow> error + hval" where
  "optTrim_st v =
     (case v of
        HUndefined \<Rightarrow> Inr HUndefined
      | HNull \<Rightarrow> Inr HUndefined
      | HBool _ \<Rightarrow> Inl TypeError
      | HNum _ \<Rightarrow> Inl TypeError
      | HStr s \<Rightarrow> Inr (HStr (trim s))
      | HRef _ \<Rightarrow> Inl TypeError)"

definition truthy_st :: "hval \<Rightarrow> bool" where
  "truthy_st v =
     (case v of
        HUndefined \<Rightarrow> False
      | HNull \<Rightarrow> False
      | HBool b \<Rightarrow> b
      | HNum n \<Rightarrow> n \<noteq> 0
      | HStr s \<Rightarrow> s \<noteq> []
      | HRef _ \<Rightarrow> True)"

definition js_not_st :: "hval \<Rightarrow> bool" where
  "js_not_st v = (\<not> truthy_st v)"

text \<open>An object literal: the new object is put at the next free address.\<close>

definition alloc :: "store \<Rightarrow> obj \<Rightarrow> hval \<times> store" where
  "alloc h ps = (HRef (length h), h @ [ps])"

text \<open>
  \<open>processCsvRow\<close>, statement by statement: three reads of the argument, the test, and
  either \<open>null\<close> or the reference to a newly allocated record. The store is returned as
  the call leaves it.
\<close>

definition fieldTrim_st :: "store \<Rightarrow> hval \<Rightarrow> jsstring \<Rightarrow> error + hval" where
  "fieldTrim_st h row k = (case getProp_st h row k of Inl e \<Rightarrow> Inl e | Inr v \<Rightarrow> optTrim_st v)"

definition processCsvRow_st :: "store \<Rightarrow> hval \<Rightarrow> (error + hval) \<times> store" where
  "processCsvRow_st h row =
     (case fieldTrim_st h row k_name of
        Inl e \<Rightarrow> (Inl e, h)
      | Inr name \<Rightarrow>
          (case fieldTrim_st h row k_age of
             Inl e \<Rightarrow> (Inl e, h)
           | Inr age \<Rightarrow>
               (case fieldTrim_st h row k_email of
                  Inl e \<Rightarrow> (Inl e, h)
                | Inr email \<Rightarrow>
                    if js_not_st name \<or> js_not_st age \<or> js_not_st email then (Inr HNull, h)
                    else (case alloc h [(k_name, name), (k_age, age), (k_email, email)] of
                            (r, h') \<Rightarrow> (Inr r, h')))))"

text \<open>The store after a sequence of calls, one for each row, in order.\<close>

fun run_calls :: "store \<Rightarrow> hval list \<Rightarrow> store" where
  "run_calls h [] = h"
| "run_calls h (r # rs) = run_calls (snd (processCsvRow_st h r)) rs"

text \<open>
  What a value of the store denotes, read to the depth the validator reads it: the
  properties of the object a reference points to, their own values with an object left
  opaque.
\<close>

definition absv :: "hval \<Rightarrow> jsval" where
  "absv v =
     (case v of
        HUndefined \<Rightarrow> JUndefined
      | HNull \<Rightarrow> JNull
      | HBool b \<Rightarrow> JBool b
      | HNum n \<Rightarrow> JNum n
      | HStr s \<Rightarrow> JStr s
      | HRef _ \<Rightarrow> JObj [])"

definition view :: "store \<Rightarrow> hval \<Rightarrow> jsval" where
  "view h v =
     (case v of
        HRef a \<Rightarrow> JObj (map (\<lambda>(k, x). (k, absv x)) (props h a))
      | _ \<Rightarrow> absv v)"

text \<open>The outcome of a call as a value: the exception, or what the returned value denotes
  in the store the call leaves.\<close>

definition result_view :: "(error + hval) \<times> store \<Rightarrow> error + jsval" where
  "result_view p = (case fst p of Inl e \<Rightarrow> Inl e | Inr v \<Rightarrow> Inr (view (snd p) v))"

text \<open>The value exists in the store: it is a primitive, or a reference to an allocated object.\<close>

definition in_store :: "store \<Rightarrow> hval \<Rightarrow> bool" where
  "in_store h v = (case v of HRef a \<Rightarrow> a < length h | _ \<Rightarrow> True)"

section \<open>Basic facts\<close>

lemmas eval_defs =
  str_def trim_def is_space_def k_name_def k_age_def k_email_def
  blank_def fully_populated_def trimmed_def normalized_def

lemma keys_distinct: "k_name \<noteq> k_age" "k_name \<noteq> k_email" "k_age \<noteq> k_email"
  by (simp_all add: k_name_def k_age_def k_email_def str_def)

subsection \<open>Trimming\<close>

lemma rstrip_Cons:
  "rev (dropWhile P (rev (x # xs))) =
     (if P x \<and> (\<forall>y\<in>set xs. P y) then [] else x # rev (dropWhile P (rev xs)))"
  by (simp add: dropWhile_append)

lemma dropWhile_rstrip:
  "dropWhile P (rev (dropWhile P (rev (dropWhile P xs)))) =
     rev (dropWhile P (rev (dropWhile P xs)))"
proof (cases "dropWhile P xs")
  case Nil
  show ?thesis unfolding Nil by simp
next
  case (Cons y ys)
  then have "\<not> P y" using hd_dropWhile [of P xs] by auto
  then show ?thesis unfolding Cons rstrip_Cons by simp
qed

lemma trim_idem: "trim (trim s) = trim s"
  by (simp add: trim_def dropWhile_rstrip)

lemma trim_Nil: "trim [] = []"
  by (simp add: trim_def)

lemma trim_ends:
  assumes "trim s \<noteq> []"
  shows "\<not> is_space (hd (trim s)) \<and> \<not> is_space (last (trim s))"
proof -
  let ?t = "dropWhile is_space s"
  let ?u = "dropWhile is_space (rev ?t)"
  from assms have u: "?u \<noteq> []" by (simp add: trim_def)
  then have "\<not> is_space (hd ?u)" by (rule hd_dropWhile)
  with u have l: "\<not> is_space (last (trim s))" by (simp add: trim_def last_rev)
  from u obtain y ys where t: "?t = y # ys" by (cases ?t) auto
  then have y: "\<not> is_space y" using hd_dropWhile [of is_space s] by auto
  have "trim s = rev (dropWhile is_space (rev (y # ys)))" by (simp only: trim_def t)
  with y have "hd (trim s) = y" by (simp only: rstrip_Cons) simp
  with y l show ?thesis by simp
qed

subsection \<open>The validator on objects and on rows\<close>

lemma fieldTrim_JObj:
  "fieldTrim (JObj ps) k = optTrim (case map_of ps k of None \<Rightarrow> JUndefined | Some x \<Rightarrow> x)"
  by (simp add: fieldTrim_def getProp_def)

lemma fieldTrim_toObj:
  "fieldTrim (toObj r) k =
     Inr (case map_of r k of None \<Rightarrow> JUndefined | Some s \<Rightarrow> JStr (trim s))"
  by (simp add: toObj_def fieldTrim_JObj map_of_map optTrim_def split: option.splits)

lemma optTrim_missing: "optTrim (JStr []) = Inr (JStr [])" "optTrim JUndefined = Inr JUndefined"
  by (simp_all add: optTrim_def trim_def)

lemma processCsvRow_fields:
  assumes "map_of ps k_name = map_of qs k_name"
    and "map_of ps k_age = map_of qs k_age"
    and "map_of ps k_email = map_of qs k_email"
  shows "processCsvRow (JObj ps) = processCsvRow (JObj qs)"
  unfolding processCsvRow_def fieldTrim_JObj assms ..

lemma processCsvRow_toObj:
  "processCsvRow (toObj r) = Inr (if fully_populated r then normalized r else JNull)"
  by (auto simp: processCsvRow_def fieldTrim_toObj fully_populated_def blank_def normalized_def
      trimmed_def js_not_def truthy_def split: option.splits)

lemma normalized_not_null: "normalized r \<noteq> JNull"
  by (simp add: normalized_def)

subsection \<open>The accumulation loop\<close>

lemma collect_eq:
  "collect rows results = Inr (results @ map normalized (filter fully_populated rows))"
  by (induction rows arbitrary: results) (simp_all add: processCsvRow_toObj normalized_not_null)

lemma uploadCsv_file:
  assumes "req_file req = Some content"
  shows "uploadCsv parseCsv bulkCreate req =
     (let results = map normalized (filter fully_populated (parseCsv content)) in
      if results = [] then (Json 400 (Error msg_no_valid), [ParseCsv content])
      else if bulkCreate results
        then (Json 201 (Message msg_success), [ParseCsv content, BulkCreate results])
        else (ServerFailure, [ParseCsv content, BulkCreate results]))"
  by (simp add: uploadCsv_def assms collect_eq Let_def)

subsection \<open>When the validator throws\<close>

lemma error_TypeError: "(e :: error) = TypeError"
  by (cases e) simp

lemma optTrim_Inl_iff:
  "optTrim x = Inl TypeError \<longleftrightarrow> \<not> nullish x \<and> \<not> is_string x"
  by (cases x) (simp_all add: optTrim_def nullish_def is_string_def)

lemma fieldTrim_JObj_Inl_iff:
  "fieldTrim (JObj ps) k = Inl TypeError \<longleftrightarrow>
     (\<exists>x. map_of ps k = Some x \<and> \<not> nullish x \<and> \<not> is_string x)"
  by (cases "map_of ps k") (simp_all add: fieldTrim_JObj optTrim_Inl_iff nullish_def)

lemma processCsvRow_Inl_iff:
  "processCsvRow row = Inl TypeError \<longleftrightarrow>
     fieldTrim row k_name = Inl TypeError \<or> fieldTrim row k_age = Inl TypeError \<or>
     fieldTrim row k_email = Inl TypeError"
  using error_TypeError by (auto simp: processCsvRow_def split: sum.splits)

lemma processCsvRow_Inr_iff:
  "(\<exists>v. processCsvRow row = Inr v) \<longleftrightarrow> processCsvRow row \<noteq> Inl TypeError"
  using error_TypeError by (cases "processCsvRow row") auto

text \<open>
  The exact set of arguments on which the validator throws. A primitive argument has no
  such property and is rejected with \<open>null\<close>; a field bound to \<open>null\<close> or \<open>undefined\<close> is
  skipped by the optional chain.
\<close>

lemma processCsvRow_TypeError_iff:
  "processCsvRow row = Inl TypeError \<longleftrightarrow>
     nullish row \<or>
     (\<exists>ps k x. row = JObj ps \<and> k \<in> {k_name, k_age, k_email} \<and> map_of ps k = Some x \<and>
        \<not> nullish x \<and> \<not> is_string x)"
proof (cases row)
  case (JObj ps)
  show ?thesis unfolding JObj processCsvRow_Inl_iff fieldTrim_JObj_Inl_iff
    by (auto simp: nullish_def)
qed (simp_all add: processCsvRow_def fieldTrim_def getProp_def optTrim_def nullish_def)

lemma fieldTrim_truthy:
  assumes "fieldTrim row k = Inr v" and "\<not> js_not v"
  shows "\<exists>s. v = JStr s \<and> s \<noteq> [] \<and> trim s = s \<and>
           \<not> is_space (hd s) \<and> \<not> is_space (last s)"
proof -
  from assms(1) obtain x where x: "optTrim x = Inr v"
    by (auto simp: fieldTrim_def split: sum.splits)
  with assms(2) obtain t where v: "v = JStr (trim t)" and ne: "trim t \<noteq> []"
    by (cases x) (auto simp: optTrim_def js_not_def truthy_def)
  from ne have "\<not> is_space (hd (trim t)) \<and> \<not> is_space (last (trim t))"
    by (rule trim_ends)
  with v ne show ?thesis by (simp add: trim_idem)
qed

lemma processCsvRow_record:
  assumes "processCsvRow row = Inr v" and "v \<noteq> JNull"
  shows "\<exists>n a e. v = JObj [(k_name, JStr n), (k_age, JStr a), (k_email, JStr e)] \<and>
           (n \<noteq> [] \<and> trim n = n \<and> \<not> is_space (hd n) \<and> \<not> is_space (last n)) \<and>
           (a \<noteq> [] \<and> trim a = a \<and> \<not> is_space (hd a) \<and> \<not> is_space (last a)) \<and>
           (e \<noteq> [] \<and> trim e = e \<and> \<not> is_space (hd e) \<and> \<not> is_space (last e))"
proof -
  from assms obtain x y z where
    f: "fieldTrim row k_name = Inr x" "fieldTrim row k_age = Inr y" "fieldTrim row k_email = Inr z"
    and t: "\<not> js_not x" "\<not> js_not y" "\<not> js_not z"
    and v: "v = JObj [(k_name, x), (k_age, y), (k_email, z)]"
    by (auto simp: processCsvRow_def split: sum.splits if_splits)
  from fieldTrim_truthy [OF f(1) t(1)] fieldTrim_truthy [OF f(2) t(2)]
    fieldTrim_truthy [OF f(3) t(3)] v
  show ?thesis by auto
qed

lemma processCsvRow_of_record:
  assumes "n \<noteq> []" "trim n = n" "a \<noteq> []" "trim a = a" "e \<noteq> []" "trim e = e"
  shows "processCsvRow (JObj [(k_name, JStr n), (k_age, JStr a), (k_email, JStr e)]) =
           Inr (JObj [(k_name, JStr n), (k_age, JStr a), (k_email, JStr e)])"
  using assms keys_distinct
  by (simp add: processCsvRow_def fieldTrim_JObj optTrim_def js_not_def truthy_def)

lemma processCsvRow_revalidate:
  assumes "processCsvRow row = Inr v" and "v \<noteq> JNull"
  shows "processCsvRow v = Inr v"
proof -
  from processCsvRow_record [OF assms] obtain n a e where
    v: "v = JObj [(k_name, JStr n), (k_age, JStr a), (k_email, JStr e)]"
    and n: "n \<noteq> []" "trim n = n" and a: "a \<noteq> []" "trim a = a" and e: "e \<noteq> []" "trim e = e"
    by (elim exE conjE)
  show ?thesis unfolding v by (rule processCsvRow_of_record [OF n a e])
qed

subsection \<open>The validator on a store\<close>

lemma optTrim_absv: "optTrim (absv x) = map_sum id absv (optTrim_st x)"
  by (cases x) (simp_all add: optTrim_def optTrim_st_def absv_def)

lemma truthy_absv: "js_not (absv x) = js_not_st x"
  by (cases x) (simp_all add: js_not_def js_not_st_def truthy_def truthy_st_def absv_def)

lemma fieldTrim_view: "fieldTrim (view h row) k = map_sum id absv (fieldTrim_st h row k)"
proof (cases row)
  case (HRef a)
  show ?thesis
    by (cases "map_of (props h a) k")
      (simp_all add: HRef view_def fieldTrim_JObj fieldTrim_st_def getProp_st_def map_of_map
        optTrim_absv [symmetric] absv_def)
qed (simp_all add: view_def absv_def fieldTrim_def fieldTrim_st_def getProp_def getProp_st_def
      optTrim_def optTrim_st_def)

lemma view_alloc:
  "view (h @ [ps]) (HRef (length h)) = JObj (map (\<lambda>(k, x). (k, absv x)) ps)"
  by (simp add: view_def props_def)

lemma processCsvRow_st_refines:
  "result_view (processCsvRow_st h row) = processCsvRow (view h row)"
proof -
  obtain n where n: "fieldTrim_st h row k_name = n" by simp
  obtain a where a: "fieldTrim_st h row k_age = a" by simp
  obtain e where e: "fieldTrim_st h row k_email = e" by simp
  show ?thesis
    unfolding processCsvRow_def processCsvRow_st_def fieldTrim_view n a e
    by (cases n; cases a; cases e)
      (simp_all add: result_view_def truthy_absv alloc_def view_alloc, simp_all add: view_def absv_def)
qed

lemma processCsvRow_st_extends:
  "\<exists>new. snd (processCsvRow_st h row) = h @ new \<and> length new \<le> 1"
  by (simp add: processCsvRow_st_def alloc_def split: sum.splits)

lemma run_calls_extends: "\<exists>new. run_calls h rows = h @ new"
proof (induction rows arbitrary: h)
  case Nil
  show ?case by simp
next
  case (Cons r rs)
  from processCsvRow_st_extends [of h r] obtain n1 where n1: "snd (processCsvRow_st h r) = h @ n1"
    by (elim exE conjE)
  from Cons [of "h @ n1"] obtain n2 where "run_calls (h @ n1) rs = (h @ n1) @ n2"
    by (elim exE)
  with n1 show ?case by simp
qed

lemma view_extend: "in_store h row \<Longrightarrow> view (h @ new) row = view h row"
  by (cases row) (simp_all add: in_store_def view_def props_def nth_append)


lemmas store_defs =
  processCsvRow_st_def fieldTrim_st_def getProp_st_def optTrim_st_def js_not_st_def
  truthy_st_def alloc_def props_def result_view_def view_def absv_def in_store_def

section \<open>The row validator: claims\<close>

text \<open>
  C1. On a RawRow in which the name, the age or the email is absent or trims to the empty
  string, \<open>processCsvRow\<close> returns \<open>null\<close>. On a RawRow whose three fields all trim to
  non-empty strings it returns the record of exactly the three trimmed values.
\<close>

theorem processCsvRow_rawrow:
  "(blank r k_name \<or> blank r k_age \<or> blank r k_email \<longrightarrow>
      processCsvRow (toObj r) = Inr JNull) \<and>
   (map_of r k_name = Some n \<and> map_of r k_age = Some a \<and> map_of r k_email = Some e \<and>
    trim n \<noteq> [] \<and> trim a \<noteq> [] \<and> trim e \<noteq> [] \<longrightarrow>
      processCsvRow (toObj r) =
        Inr (JObj [(k_name, JStr (trim n)), (k_age, JStr (trim a)), (k_email, JStr (trim e))]))"
  by (auto simp: processCsvRow_def fieldTrim_toObj blank_def js_not_def truthy_def
      split: option.splits)

theorem processCsvRow_rawrow_witness:
  "blank [(k_name, str ''Ana''), (k_age, str '' ''), (k_email, str ''a@b.c'')] k_age \<and>
   processCsvRow (toObj [(k_name, str ''Ana''), (k_age, str '' ''), (k_email, str ''a@b.c'')])
     = Inr JNull \<and>
   processCsvRow (toObj [(k_name, str '' Ana ''), (k_age, str ''19''), (k_email, str ''a@b.c '')])
     = Inr (JObj [(k_name, JStr (str ''Ana'')), (k_age, JStr (str ''19'')),
                  (k_email, JStr (str ''a@b.c''))])"
  using
    processCsvRow_rawrow [of "[(k_name, str ''Ana''), (k_age, str '' ''), (k_email, str ''a@b.c'')]"]
    processCsvRow_rawrow [of "[(k_name, str '' Ana ''), (k_age, str ''19''), (k_email, str ''a@b.c '')]"
      "str '' Ana ''" "str ''19''" "str ''a@b.c ''"]
  by (simp add: eval_defs)

text \<open>
  C7. A missing field is treated as the empty string: on an object that lacks one of the
  keys \<open>name\<close>, \<open>age\<close>, \<open>email\<close>, the result is the result on the same object with that
  key bound to the empty string (whatever the other properties are, and also when the
  call throws).
\<close>

theorem processCsvRow_missing_as_empty:
  assumes "k \<in> {k_name, k_age, k_email}" and "map_of ps k = None"
    and "map_of ps' = (map_of ps)(k \<mapsto> JStr [])"
  shows "processCsvRow (JObj ps') = processCsvRow (JObj ps)"
  using assms keys_distinct
  by (auto simp: processCsvRow_def fieldTrim_JObj optTrim_missing js_not_def truthy_def
      split: sum.splits)

theorem processCsvRow_missing_as_empty_witness:
  "k_name \<in> {k_name, k_age, k_email} \<and>
   map_of [(k_age, JStr (str ''19'')), (k_email, JStr (str ''a@b.c''))] k_name = None \<and>
   processCsvRow (JObj [(k_name, JStr []), (k_age, JStr (str ''19'')), (k_email, JStr (str ''a@b.c''))])
     = processCsvRow (JObj [(k_age, JStr (str ''19'')), (k_email, JStr (str ''a@b.c''))])"
  using processCsvRow_missing_as_empty [of k_name
      "[(k_age, JStr (str ''19'')), (k_email, JStr (str ''a@b.c''))]"
      "[(k_name, JStr []), (k_age, JStr (str ''19'')), (k_email, JStr (str ''a@b.c''))]"]
    keys_distinct
  by simp

text \<open>
  C8. \<open>processCsvRow\<close> is pure and deterministic. With the store explicit: a call leaves
  every object that existed before it as it was (the argument too) and at most adds its
  own result; its outcome is the value of the validator on what the row denotes, and so
  is the same for any two rows that denote the same, in whatever stores; validating the
  same row a second time, in the store the first call left, gives the same outcome;
  and the outcome for a row is the same after any sequence of earlier calls on any other
  rows. (Two calls return two distinct records with equal contents: outcomes are
  compared by what they denote.)
\<close>

theorem processCsvRow_st_pure:
  "take (length h) (snd (processCsvRow_st h row)) = h \<and>
   length (snd (processCsvRow_st h row)) \<le> Suc (length h) \<and>
   result_view (processCsvRow_st h row) = processCsvRow (view h row) \<and>
   (in_store h row \<longrightarrow>
      result_view (processCsvRow_st (snd (processCsvRow_st h row)) row) =
        result_view (processCsvRow_st h row) \<and>
      result_view (processCsvRow_st (run_calls h others) row) =
        result_view (processCsvRow_st h row)) \<and>
   (view h1 row1 = view h2 row2 \<longrightarrow>
      result_view (processCsvRow_st h1 row1) = result_view (processCsvRow_st h2 row2))"
proof (intro conjI impI)
  from processCsvRow_st_extends [of h row] obtain new where
    "snd (processCsvRow_st h row) = h @ new" by (elim exE conjE)
  then show "take (length h) (snd (processCsvRow_st h row)) = h" by simp
next
  from processCsvRow_st_extends [of h row] obtain new where
    "snd (processCsvRow_st h row) = h @ new" and "length new \<le> 1" by (elim exE conjE)
  then show "length (snd (processCsvRow_st h row)) \<le> Suc (length h)" by simp
next
  show "result_view (processCsvRow_st h row) = processCsvRow (view h row)"
    by (rule processCsvRow_st_refines)
next
  assume r: "in_store h row"
  from processCsvRow_st_extends [of h row] obtain new where
    new: "snd (processCsvRow_st h row) = h @ new" by (elim exE conjE)
  show "result_view (processCsvRow_st (snd (processCsvRow_st h row)) row) =
        result_view (processCsvRow_st h row)"
    by (simp only: new processCsvRow_st_refines view_extend [OF r])
next
  assume r: "in_store h row"
  from run_calls_extends [of h others] obtain new where
    new: "run_calls h others = h @ new" by (elim exE)
  show "result_view (processCsvRow_st (run_calls h others) row) =
        result_view (processCsvRow_st h row)"
    by (simp only: new processCsvRow_st_refines view_extend [OF r])
next
  assume "view h1 row1 = view h2 row2"
  then show "result_view (processCsvRow_st h1 row1) = result_view (processCsvRow_st h2 row2)"
    by (simp only: processCsvRow_st_refines)
qed

theorem processCsvRow_st_pure_witness:
  "in_store [[(k_name, HStr (str '' Ana '')), (k_age, HStr (str ''19'')), (k_email, HStr (str ''a@b.c''))],
             [(k_name, HStr (str ''Bia''))]] (HRef 0) \<and>
   result_view (processCsvRow_st
     [[(k_name, HStr (str '' Ana '')), (k_age, HStr (str ''19'')), (k_email, HStr (str ''a@b.c''))],
      [(k_name, HStr (str ''Bia''))]] (HRef 0))
     = Inr (JObj [(k_name, JStr (str ''Ana'')), (k_age, JStr (str ''19'')),
                  (k_email, JStr (str ''a@b.c''))]) \<and>
   result_view (processCsvRow_st (snd (processCsvRow_st
     [[(k_name, HStr (str '' Ana '')), (k_age, HStr (str ''19'')), (k_email, HStr (str ''a@b.c''))],
      [(k_name, HStr (str ''Bia''))]] (HRef 0))) (HRef 0))
     = Inr (JObj [(k_name, JStr (str ''Ana'')), (k_age, JStr (str ''19'')),
                  (k_email, JStr (str ''a@b.c''))]) \<and>
   result_view (processCsvRow_st (run_calls
     [[(k_name, HStr (str '' Ana '')), (k_age, HStr (str ''19'')), (k_email, HStr (str ''a@b.c''))],
      [(k_name, HStr (str ''Bia''))]] [HRef 1, HNull, HRef 0]) (HRef 0))
     = Inr (JObj [(k_name, JStr (str ''Ana'')), (k_age, JStr (str ''19'')),
                  (k_email, JStr (str ''a@b.c''))])"
proof -
  let ?h = "[[(k_name, HStr (str '' Ana '')), (k_age, HStr (str ''19'')), (k_email, HStr (str ''a@b.c''))],
             [(k_name, HStr (str ''Bia''))]]"
  have i: "in_store ?h (HRef 0)" by (simp add: in_store_def)
  have e: "result_view (processCsvRow_st ?h (HRef 0))
     = Inr (JObj [(k_name, JStr (str ''Ana'')), (k_age, JStr (str ''19'')),
                  (k_email, JStr (str ''a@b.c''))])"
    by (simp add: store_defs eval_defs)
  from processCsvRow_st_pure [where h = ?h and row = "HRef 0" and others = "[HRef 1, HNull, HRef 0]"]
  have "result_view (processCsvRow_st (snd (processCsvRow_st ?h (HRef 0))) (HRef 0)) =
          result_view (processCsvRow_st ?h (HRef 0))"
    and "result_view (processCsvRow_st (run_calls ?h [HRef 1, HNull, HRef 0]) (HRef 0)) =
          result_view (processCsvRow_st ?h (HRef 0))"
    using i by blast+
  with i e show ?thesis by (simp only: simp_thms)
qed

text \<open>
  C9. Every result of \<open>processCsvRow\<close> other than \<open>null\<close> is a record with the three
  fields \<open>name\<close>, \<open>age\<close>, \<open>email\<close>, each a non-empty string that equals its own trimmed
  form: it neither starts nor ends with white space.
\<close>

theorem processCsvRow_invariant:
  assumes "processCsvRow row = Inr v" and "v \<noteq> JNull"
  shows "\<exists>n a e. v = JObj [(k_name, JStr n), (k_age, JStr a), (k_email, JStr e)] \<and>
           n \<noteq> [] \<and> a \<noteq> [] \<and> e \<noteq> [] \<and> trim n = n \<and> trim a = a \<and> trim e = e \<and>
           \<not> is_space (hd n) \<and> \<not> is_space (last n) \<and>
           \<not> is_space (hd a) \<and> \<not> is_space (last a) \<and>
           \<not> is_space (hd e) \<and> \<not> is_space (last e)"
proof -
  from processCsvRow_record [OF assms] obtain n a e where
    v: "v = JObj [(k_name, JStr n), (k_age, JStr a), (k_email, JStr e)]"
    and n: "n \<noteq> []" "trim n = n" "\<not> is_space (hd n)" "\<not> is_space (last n)"
    and a: "a \<noteq> []" "trim a = a" "\<not> is_space (hd a)" "\<not> is_space (last a)"
    and e: "e \<noteq> []" "trim e = e" "\<not> is_space (hd e)" "\<not> is_space (last e)"
    by (elim exE conjE)
  show ?thesis
    by (intro exI conjI) (rule v n a e)+
qed

theorem processCsvRow_invariant_witness:
  "processCsvRow (toObj [(k_name, str '' Ana ''), (k_age, str ''19''), (k_email, str ''a@b.c '')])
     = Inr (JObj [(k_name, JStr (str ''Ana'')), (k_age, JStr (str ''19'')),
                  (k_email, JStr (str ''a@b.c''))]) \<and>
   (\<exists>n a e. JObj [(k_name, JStr (str ''Ana'')), (k_age, JStr (str ''19'')),
                   (k_email, JStr (str ''a@b.c''))]
              = JObj [(k_name, JStr n), (k_age, JStr a), (k_email, JStr e)] \<and>
            n \<noteq> [] \<and> a \<noteq> [] \<and> e \<noteq> [] \<and> trim n = n \<and> trim a = a \<and> trim e = e \<and>
            \<not> is_space (hd n) \<and> \<not> is_space (last n) \<and>
            \<not> is_space (hd a) \<and> \<not> is_space (last a) \<and>
            \<not> is_space (hd e) \<and> \<not> is_space (last e))"
proof -
  have r: "processCsvRow (toObj [(k_name, str '' Ana ''), (k_age, str ''19''), (k_email, str ''a@b.c '')])
     = Inr (JObj [(k_name, JStr (str ''Ana'')), (k_age, JStr (str ''19'')),
                  (k_email, JStr (str ''a@b.c''))])"
    by (simp add: processCsvRow_toObj eval_defs)
  from processCsvRow_invariant [OF r] r show ?thesis by simp
qed

text \<open>
  C10. \<open>processCsvRow\<close> returns without throwing on every object whose \<open>name\<close>, \<open>age\<close>
  and \<open>email\<close>, when present, are strings. It throws a \<open>TypeError\<close> on \<open>null\<close> and on
  \<open>undefined\<close>, and on every object in which one of the three fields is present with a
  value that is not a string. A field is present when the optional chain does not skip
  it, that is, when its value is neither \<open>undefined\<close> nor \<open>null\<close>.
\<close>

theorem processCsvRow_throws:
  "((\<forall>k \<in> {k_name, k_age, k_email}. \<forall>x. map_of ps k = Some x \<longrightarrow> nullish x \<or> is_string x) \<longrightarrow>
      (\<exists>v. processCsvRow (JObj ps) = Inr v)) \<and>
   processCsvRow JNull = Inl TypeError \<and>
   processCsvRow JUndefined = Inl TypeError \<and>
   (k \<in> {k_name, k_age, k_email} \<and> map_of qs k = Some x \<and> \<not> nullish x \<and> \<not> is_string x \<longrightarrow>
      processCsvRow (JObj qs) = Inl TypeError)"
proof (intro conjI impI)
  assume "\<forall>k \<in> {k_name, k_age, k_email}. \<forall>x. map_of ps k = Some x \<longrightarrow> nullish x \<or> is_string x"
  then have "processCsvRow (JObj ps) \<noteq> Inl TypeError"
    unfolding processCsvRow_Inl_iff fieldTrim_JObj_Inl_iff by auto
  then show "\<exists>v. processCsvRow (JObj ps) = Inr v"
    by (simp add: processCsvRow_Inr_iff)
next
  show "processCsvRow JNull = Inl TypeError"
    by (simp add: processCsvRow_def fieldTrim_def getProp_def)
next
  show "processCsvRow JUndefined = Inl TypeError"
    by (simp add: processCsvRow_def fieldTrim_def getProp_def)
next
  assume "k \<in> {k_name, k_age, k_email} \<and> map_of qs k = Some x \<and> \<not> nullish x \<and> \<not> is_string x"
  then show "processCsvRow (JObj qs) = Inl TypeError"
    unfolding processCsvRow_Inl_iff fieldTrim_JObj_Inl_iff by auto
qed

theorem processCsvRow_throws_witness:
  "(\<exists>v. processCsvRow (JObj [(k_name, JStr (str ''Ana'')), (k_email, JStr (str ''a@b.c''))]) = Inr v) \<and>
   \<not> nullish (JNum 19) \<and> \<not> is_string (JNum 19) \<and>
   processCsvRow (JObj [(k_name, JStr (str ''Ana'')), (k_age, JNum 19), (k_email, JStr (str ''a@b.c''))])
     = Inl TypeError"
  using
    processCsvRow_throws [where ps = "[(k_name, JStr (str ''Ana'')), (k_email, JStr (str ''a@b.c''))]"
      and k = k_age and x = "JNum 19"
      and qs = "[(k_name, JStr (str ''Ana'')), (k_age, JNum 19), (k_email, JStr (str ''a@b.c''))]"]
    keys_distinct
  by (simp add: nullish_def is_string_def)

section \<open>The upload handler: claims\<close>

text \<open>
  C2. For a request with a file whose rows are all fully populated, at least one of them,
  the handler calls the batch insert exactly once, with the normalized record of every
  row, in order; and when that call resolves, as in the integration test, the response is
  201 with the message "Dados inseridos com sucesso!".
\<close>

theorem uploadCsv_valid:
  assumes "req_file req = Some content" and "parseCsv content = rows" and "rows \<noteq> []"
    and "\<forall>r \<in> set rows. fully_populated r"
  shows "bulkCreateCalls (snd (uploadCsv parseCsv bulkCreate req)) = [map normalized rows] \<and>
         (bulkCreate (map normalized rows) \<longrightarrow>
            fst (uploadCsv parseCsv bulkCreate req) = Json 201 (Message msg_success))"
proof -
  from assms(4) have "filter fully_populated rows = rows" by simp
  with assms(1,2,3) show ?thesis by (simp add: uploadCsv_file Let_def)
qed

theorem uploadCsv_valid_witness:
  "fully_populated [(k_name, str '' Ana ''), (k_age, str ''19''), (k_email, str ''a@b.c'')] \<and>
   fully_populated [(k_name, str ''Bia''), (k_age, str ''21 ''), (k_email, str ''b@b.c'')] \<and>
   bulkCreateCalls (snd (uploadCsv
      (\<lambda>_. [[(k_name, str '' Ana ''), (k_age, str ''19''), (k_email, str ''a@b.c'')],
             [(k_name, str ''Bia''), (k_age, str ''21 ''), (k_email, str ''b@b.c'')]])
      (\<lambda>_. True) \<lparr>req_file = Some (str ''csv'')\<rparr>))
     = [[JObj [(k_name, JStr (str ''Ana'')), (k_age, JStr (str ''19'')), (k_email, JStr (str ''a@b.c''))],
         JObj [(k_name, JStr (str ''Bia'')), (k_age, JStr (str ''21'')), (k_email, JStr (str ''b@b.c''))]]] \<and>
   fst (uploadCsv
      (\<lambda>_. [[(k_name, str '' Ana ''), (k_age, str ''19''), (k_email, str ''a@b.c'')],
             [(k_name, str ''Bia''), (k_age, str ''21 ''), (k_email, str ''b@b.c'')]])
      (\<lambda>_. True) \<lparr>req_file = Some (str ''csv'')\<rparr>)
     = Json 201 (Message msg_success)"
proof -
  let ?rows = "[[(k_name, str '' Ana ''), (k_age, str ''19''), (k_email, str ''a@b.c'')],
                [(k_name, str ''Bia''), (k_age, str ''21 ''), (k_email, str ''b@b.c'')]]"
  have h: "\<forall>r \<in> set ?rows. fully_populated r" by (simp add: eval_defs)
  have n: "map normalized ?rows =
     [JObj [(k_name, JStr (str ''Ana'')), (k_age, JStr (str ''19'')), (k_email, JStr (str ''a@b.c''))],
      JObj [(k_name, JStr (str ''Bia'')), (k_age, JStr (str ''21'')), (k_email, JStr (str ''b@b.c''))]]"
    by (simp add: eval_defs)
  from uploadCsv_valid [of "\<lparr>req_file = Some (str ''csv'')\<rparr>" "str ''csv''" "\<lambda>_. ?rows" ?rows
      "\<lambda>_. True", OF _ _ _ h]
  show ?thesis unfolding n using h by simp
qed

text \<open>
  C3. For a request without a file the handler answers 400 with the "file required"
  error message (\<open>msg_file_required\<close>) and does nothing else: the parser is not run and
  the batch insert is not called.
\<close>

theorem uploadCsv_no_file:
  assumes "req_file req = None"
  shows "uploadCsv parseCsv bulkCreate req = (Json 400 (Error msg_file_required), []) \<and>
         bulkCreateCalls (snd (uploadCsv parseCsv bulkCreate req)) = [] \<and>
         \<not> parsed (snd (uploadCsv parseCsv bulkCreate req))"
  using assms by (simp add: uploadCsv_def)

theorem uploadCsv_no_file_witness:
  "uploadCsv (\<lambda>_. []) (\<lambda>_. True) \<lparr>req_file = None\<rparr> = (Json 400 (Error msg_file_required), []) \<and>
   bulkCreateCalls (snd (uploadCsv (\<lambda>_. []) (\<lambda>_. True) \<lparr>req_file = None\<rparr>)) = [] \<and>
   \<not> parsed (snd (uploadCsv (\<lambda>_. []) (\<lambda>_. True) \<lparr>req_file = None\<rparr>))"
  using uploadCsv_no_file [of "\<lparr>req_file = None\<rparr>" "\<lambda>_. []" "\<lambda>_. True"] by simp

text \<open>
  C4. For a request with a file none of whose rows is fully populated (also when it has no
  rows at all), the handler answers 400 with the "no valid data" error message
  (\<open>msg_no_valid\<close>) and does not call the batch insert.
\<close>

theorem uploadCsv_no_valid_rows:
  assumes "req_file req = Some content" and "\<forall>r \<in> set (parseCsv content). \<not> fully_populated r"
  shows "fst (uploadCsv parseCsv bulkCreate req) = Json 400 (Error msg_no_valid) \<and>
         bulkCreateCalls (snd (uploadCsv parseCsv bulkCreate req)) = []"
proof -
  from assms(2) have "filter fully_populated (parseCsv content) = []" by (simp add: filter_empty_conv)
  with assms(1) show ?thesis by (simp add: uploadCsv_file Let_def)
qed

theorem uploadCsv_no_valid_rows_witness:
  "\<not> fully_populated [(k_name, str ''Ana''), (k_age, str ''  ''), (k_email, str ''a@b.c'')] \<and>
   \<not> fully_populated [(k_name, str ''Bia''), (k_age, str ''21'')] \<and>
   fst (uploadCsv
      (\<lambda>_. [[(k_name, str ''Ana''), (k_age, str ''  ''), (k_email, str ''a@b.c'')],
             [(k_name, str ''Bia''), (k_age, str ''21'')]])
      (\<lambda>_. True) \<lparr>req_file = Some (str ''csv'')\<rparr>) = Json 400 (Error msg_no_valid) \<and>
   bulkCreateCalls (snd (uploadCsv
      (\<lambda>_. [[(k_name, str ''Ana''), (k_age, str ''  ''), (k_email, str ''a@b.c'')],
             [(k_name, str ''Bia''), (k_age, str ''21'')]])
      (\<lambda>_. True) \<lparr>req_file = Some (str ''csv'')\<rparr>)) = []"
proof -
  let ?rows = "[[(k_name, str ''Ana''), (k_age, str ''  ''), (k_email, str ''a@b.c'')],
                [(k_name, str ''Bia''), (k_age, str ''21'')]]"
  have h: "\<forall>r \<in> set ?rows. \<not> fully_populated r" by (simp add: eval_defs)
  from uploadCsv_no_valid_rows [of "\<lparr>req_file = Some (str ''csv'')\<rparr>" "str ''csv''" "\<lambda>_. ?rows"
      "\<lambda>_. True"] h
  show ?thesis by simp
qed

text \<open>
  C5. For any sequence of rows, valid and invalid mixed, what the handler passes to the
  batch insert is the sequence of the normalized records of the valid rows, in the order
  of the input: the invalid rows are removed and nothing is reordered. (When no row is
  valid, nothing is passed.)
\<close>

theorem uploadCsv_order:
  assumes "req_file req = Some content" and "parseCsv content = rows"
  shows "bulkCreateCalls (snd (uploadCsv parseCsv bulkCreate req)) =
           (if filter fully_populated rows = [] then []
            else [map normalized (filter fully_populated rows)])"
  using assms by (simp add: uploadCsv_file Let_def)

theorem uploadCsv_order_witness:
  "bulkCreateCalls (snd (uploadCsv
      (\<lambda>_. [[(k_name, str '' Ana ''), (k_age, str ''19''), (k_email, str ''a@b.c'')],
             [(k_name, str ''Bia''), (k_age, str ''  ''), (k_email, str ''b@b.c'')],
             [(k_name, str ''Caio''), (k_age, str ''21''), (k_email, str ''c@b.c'')]])
      (\<lambda>_. True) \<lparr>req_file = Some (str ''csv'')\<rparr>))
     = [[JObj [(k_name, JStr (str ''Ana'')), (k_age, JStr (str ''19'')), (k_email, JStr (str ''a@b.c''))],
         JObj [(k_name, JStr (str ''Caio'')), (k_age, JStr (str ''21'')), (k_email, JStr (str ''c@b.c''))]]]"
proof -
  let ?rows = "[[(k_name, str '' Ana ''), (k_age, str ''19''), (k_email, str ''a@b.c'')],
             [(k_name, str ''Bia''), (k_age, str ''  ''), (k_email, str ''b@b.c'')],
             [(k_name, str ''Caio''), (k_age, str ''21''), (k_email, str ''c@b.c'')]]"
  have f: "filter fully_populated ?rows =
     [[(k_name, str '' Ana ''), (k_age, str ''19''), (k_email, str ''a@b.c'')],
      [(k_name, str ''Caio''), (k_age, str ''21''), (k_email, str ''c@b.c'')]]"
    by (simp add: eval_defs)
  have n: "map normalized [[(k_name, str '' Ana ''), (k_age, str ''19''), (k_email, str ''a@b.c'')],
      [(k_name, str ''Caio''), (k_age, str ''21''), (k_email, str ''c@b.c'')]] =
     [JObj [(k_name, JStr (str ''Ana'')), (k_age, JStr (str ''19'')), (k_email, JStr (str ''a@b.c''))],
      JObj [(k_name, JStr (str ''Caio'')), (k_age, JStr (str ''21'')), (k_email, JStr (str ''c@b.c''))]]"
    by (simp add: eval_defs)
  from uploadCsv_order [of "\<lparr>req_file = Some (str ''csv'')\<rparr>" "str ''csv''" "\<lambda>_. ?rows" ?rows
      "\<lambda>_. True"]
  show ?thesis unfolding f n by simp
qed

text \<open>
  C6. For every request, every parser and every behaviour of the persistence, the handler
  calls the batch insert at most once.
\<close>

theorem uploadCsv_at_most_one_call:
  "length (bulkCreateCalls (snd (uploadCsv parseCsv bulkCreate req))) \<le> 1"
  by (cases "req_file req") (simp_all add: uploadCsv_def collect_eq)

end
